theory Spec2Isabelle
  imports Main "HOL-Library.Word" "HOL-Library.Signed_Division"
begin

section \<open>PingParallel: data model\<close>

text \<open>
  The Go program \<^verbatim>\<open>main.go\<close> probes URLs concurrently.  Go's \<^verbatim>\<open>int64\<close>
  (counters, \<^verbatim>\<open>time.Duration\<close> in nanoseconds) is \<open>64 word\<close>, read as two's
  complement by \<open>sint\<close> and compared by \<open><s\<close> and \<open><=s\<close>.  The HTTP status
  is only ever compared with constants, so it is an \<open>int\<close>.  A \<^verbatim>\<open>time.Time\<close> is
  an abstract instant, a \<open>nat\<close>.
\<close>

type_synonym int64 = "64 word"
type_synonym instant = nat

datatype error = Canceled | TransportError string

record Result =
  URL :: string
  Status :: int
  Duration :: int64
  Error :: "error option"
  When :: instant

text \<open>The zero value of \<^verbatim>\<open>Result\<close> (\<^verbatim>\<open>var last Result\<close>).\<close>

definition zeroResult :: Result where
  "zeroResult = \<lparr>URL = [], Status = 0, Duration = 0, Error = None, When = 0\<rparr>"

section \<open>One probe\<close>

text \<open>
  \<^verbatim>\<open>pingOnce\<close> sends a HEAD request and, if that fails, a GET request.  What the
  network answers and what the clock reads are inputs of the model: \<open>do_req\<close> is
  \<^verbatim>\<open>client.Do\<close> for this attempt, \<open>start\<close> is \<^verbatim>\<open>time.Now()\<close> and \<open>elapsed\<close> is
  \<^verbatim>\<open>time.Since(start)\<close>.
\<close>

datatype http_method = HEAD | GET

record response =
  StatusCode :: int

record attempt_env =
  do_req :: "http_method \<Rightarrow> response option \<times> error option"
  start :: instant
  elapsed :: int64

definition pingOnce :: "attempt_env \<Rightarrow> string \<Rightarrow> Result" where
  "pingOnce ae url =
    (let (resp, err) = do_req ae HEAD;
         (resp, err) = (if err \<noteq> None then do_req ae GET else (resp, err));
         status = (case resp of None \<Rightarrow> 0 | Some rp \<Rightarrow> StatusCode rp)
     in \<lparr>URL = url, Status = status, Duration = elapsed ae, Error = err, When = start ae\<rparr>)"

section \<open>The retry loop\<close>

text \<open>
  What \<^verbatim>\<open>pingWithRetries\<close> observes of the world, per attempt index: whether
  \<^verbatim>\<open>ctx.Err()\<close> is set at the check that opens the iteration, the network and clock of
  the probe, the duration \<^verbatim>\<open>sleep\<close> of the backoff wait, which case of the \<^verbatim>\<open>select\<close>
  ends that wait, and the reading of \<^verbatim>\<open>time.Now()\<close> for a cancellation result.

  The duration is an input because the source does not fix it.  Lines 90 to 92 are
  \<^verbatim>\<open>base := float64(100 * (1 << attempt))\<close>, \<^verbatim>\<open>jitter := rand.Float64() * base\<close> and
  \<^verbatim>\<open>sleep := time.Duration(base+jitter) * time.Millisecond\<close>.  The first of them is not
  accepted by Go's type checker: in a shift by a variable the untyped constant \<^verbatim>\<open>1\<close>
  takes the type it would have without the shift, here the \<^verbatim>\<open>float64\<close> of the
  conversion, and a \<^verbatim>\<open>float64\<close> cannot be shifted.  So \<^verbatim>\<open>base\<close> has no value, and
  nothing below depends on the value of \<open>sleep\<close>.
\<close>

datatype wait_outcome = TimerFired | CtxDone

record env =
  cancelled :: "nat \<Rightarrow> bool"
  attempt_of :: "nat \<Rightarrow> attempt_env"
  sleep :: "nat \<Rightarrow> int64"
  wait :: "nat \<Rightarrow> wait_outcome"
  now :: "nat \<Rightarrow> instant"

text \<open>\<^verbatim>\<open>Result{URL: url, Error: ctx.Err(), When: time.Now()}\<close>\<close>

definition cancelResult :: "env \<Rightarrow> string \<Rightarrow> nat \<Rightarrow> Result" where
  "cancelResult e url attempt =
     \<lparr>URL = url, Status = 0, Duration = 0, Error = Some Canceled, When = now e attempt\<rparr>"

text \<open>
  What the loop does is recorded beside the result it returns: each call of
  \<^verbatim>\<open>pingOnce\<close> and each backoff wait with its duration and the way it ended.
\<close>

datatype event = Probe nat | Backoff nat int64 wait_outcome

definition after :: "event list \<Rightarrow> Result \<times> event list \<Rightarrow> Result \<times> event list" where
  "after evs p = (fst p, evs @ snd p)"

text \<open>
  The loop \<^verbatim>\<open>for attempt := 0; attempt <= maxRetries; attempt++\<close> from the iteration
  \<open>attempt\<close> on, with \<open>lastR\<close> the current value of \<^verbatim>\<open>last\<close>.  The counter is a
  natural number here; the \<^verbatim>\<open>int\<close> of the source agrees with it below \<open>2^63\<close>, which
  the loop can only reach when \<^verbatim>\<open>maxRetries\<close> is \<open>2^63 - 1\<close>.
\<close>

function pingLoop :: "env \<Rightarrow> string \<Rightarrow> int \<Rightarrow> nat \<Rightarrow> Result \<Rightarrow> Result \<times> event list" where
  "pingLoop e url maxRetries attempt lastR =
    (if int attempt \<le> maxRetries then
       if cancelled e attempt then (cancelResult e url attempt, [])
       else if Error (pingOnce (attempt_of e attempt) url) = None
               \<and> (Status (pingOnce (attempt_of e attempt) url) = 0
                  \<or> Status (pingOnce (attempt_of e attempt) url) < 500)
       then (pingOnce (attempt_of e attempt) url, [Probe attempt])
       else if int attempt < maxRetries then
         (case wait e attempt of
            TimerFired \<Rightarrow>
              after [Probe attempt,
                     Backoff attempt (sleep e attempt) TimerFired]
                (pingLoop e url maxRetries (Suc attempt) (pingOnce (attempt_of e attempt) url))
          | CtxDone \<Rightarrow>
              (cancelResult e url attempt,
               [Probe attempt,
                Backoff attempt (sleep e attempt) CtxDone]))
       else after [Probe attempt]
              (pingLoop e url maxRetries (Suc attempt) (pingOnce (attempt_of e attempt) url))
     else (lastR, []))"
  by pat_completeness auto
termination
  by (relation "measure (\<lambda>(e, url, maxRetries, attempt, lastR). nat (maxRetries + 1 - int attempt))")
     auto

definition pingWithRetries :: "env \<Rightarrow> string \<Rightarrow> int \<Rightarrow> Result \<times> event list" where
  "pingWithRetries e url maxRetries = pingLoop e url maxRetries 0 zeroResult"

text \<open>A result that makes the loop try again: an error, or a status of 500 or more.\<close>

definition retry_worthy :: "Result \<Rightarrow> bool" where
  "retry_worthy r = (\<not> (Error r = None \<and> (Status r = 0 \<or> Status r < 500)))"

definition probes :: "event list \<Rightarrow> nat list" where
  "probes evs = concat (map (\<lambda>ev. case ev of Probe k \<Rightarrow> [k] | Backoff k d w \<Rightarrow> []) evs)"

section \<open>The collector goroutine\<close>

text \<open>
  The statistics variables of \<^verbatim>\<open>main\<close> and the lines the collector prints.  The
  collector is the only writer of these variables, so its loop body is a function from
  the statistics and one received result to the new statistics.
\<close>

datatype line =
  ProbeLine instant string int int64
| ErrorLine instant string error

record stats =
  total_n :: int64
  success :: int64
  failed :: int64
  sumNanos :: int64
  minLatency :: int64
  maxLatency :: int64
  printed :: "line list"

definition MaxInt64 :: int64 where
  "MaxInt64 = 0x7FFFFFFFFFFFFFFF"

definition init_stats :: stats where
  "init_stats = \<lparr>total_n = 0, success = 0, failed = 0, sumNanos = 0,
     minLatency = MaxInt64, maxLatency = 0, printed = []\<rparr>"

text \<open>\<^verbatim>\<open>ok := (r.Error == nil) && (r.Status == 0 || r.Status < 400)\<close>\<close>

definition ok :: "Result \<Rightarrow> bool" where
  "ok r = (Error r = None \<and> (Status r = 0 \<or> Status r < 400))"

text \<open>One iteration of \<^verbatim>\<open>for r := range results\<close>.\<close>

definition consume :: "stats \<Rightarrow> Result \<Rightarrow> stats" where
  "consume s r =
    (let s1 = s\<lparr>total_n := total_n s + 1\<rparr>;
         s2 = (if ok r then s1\<lparr>success := success s1 + 1\<rparr>
               else s1\<lparr>failed := failed s1 + 1\<rparr>)
     in case Error r of
          None \<Rightarrow>
            (let n = Duration r;
                 s3 = s2\<lparr>sumNanos := sumNanos s2 + n\<rparr>;
                 s4 = (if n <s minLatency s3 then s3\<lparr>minLatency := n\<rparr> else s3);
                 s5 = (if maxLatency s4 <s n then s4\<lparr>maxLatency := n\<rparr> else s4)
             in s5\<lparr>printed := printed s5 @ [ProbeLine (When r) (URL r) (Status r) (Duration r)]\<rparr>)
        | Some e \<Rightarrow> s2\<lparr>printed := printed s2 @ [ErrorLine (When r) (URL r) e]\<rparr>)"

text \<open>The collector's loop over the results it receives, in arrival order.\<close>

definition collect :: "stats \<Rightarrow> Result list \<Rightarrow> stats" where
  "collect s rs = foldl consume s rs"

section \<open>The summary\<close>

text \<open>
  Go's \<^verbatim>\<open>/\<close> on \<^verbatim>\<open>int64\<close> truncates towards zero; the divisor is checked positive
  before the division.
\<close>

definition div64 :: "int64 \<Rightarrow> int64 \<Rightarrow> int64" where
  "div64 a b = word_of_int (sint a sdiv sint b)"

datatype summary_line =
  Header
| Requests int64 int64 int64
| Latency int64 int64 int64
| Runtime int64

text \<open>
  After \<^verbatim>\<open>wg.Wait()\<close> and \<^verbatim>\<open>close(results)\<close>, \<^verbatim>\<open>main\<close> goes on at once: nothing
  waits for the collector goroutine, which may still be consuming buffered results (the
  comment \<^verbatim>\<open>// close results and wait collector to finish\<close> has no code behind its
  second half).  So the lines that are printed are a function of the values that the
  reads of \<^verbatim>\<open>main\<close> return, in this order: the atomic loads of \<^verbatim>\<open>total\<close>,
  \<^verbatim>\<open>success\<close> and \<^verbatim>\<open>failed\<close>, the read of \<^verbatim>\<open>sumNanos\<close> in the test
  \<^verbatim>\<open>tot > 0 && sumNanos > 0\<close> (only when \<^verbatim>\<open>tot > 0\<close>), its read in
  \<^verbatim>\<open>sumNanos / tot\<close>, and the reads of \<^verbatim>\<open>minLatency\<close> and \<^verbatim>\<open>maxLatency\<close> in the
  \<^verbatim>\<open>Printf\<close>.  \<open>totalDur\<close> is the measured run time.
\<close>

definition main_summary ::
  "int64 \<Rightarrow> int64 \<Rightarrow> int64 \<Rightarrow> int64 \<Rightarrow> int64 \<Rightarrow> int64 \<Rightarrow> int64 \<Rightarrow> int64 \<Rightarrow> summary_line list" where
  "main_summary tot succ fail sum1 sum2 mn mx totalDur =
     (let avg = (if 0 <s tot \<and> 0 <s sum1 then div64 sum2 tot else 0)
      in [Header, Requests tot succ fail]
         @ (if 0 <s tot then [Latency avg mn mx] else [])
         @ [Runtime totalDur])"

text \<open>
  The summary when every read of \<^verbatim>\<open>main\<close> returns the value of one state \<open>s\<close> of the
  collector, as it does when the collector has consumed every result before the first
  read.  First \<^verbatim>\<open>if tot > 0 && sumNanos > 0 { avg = time.Duration(sumNanos / tot) }\<close>,
  with \<^verbatim>\<open>avg\<close> zero otherwise.
\<close>

definition avg :: "stats \<Rightarrow> int64" where
  "avg s = (if 0 <s total_n s \<and> 0 <s sumNanos s then div64 (sumNanos s) (total_n s) else 0)"

text \<open>Then the lines printed, from that state.\<close>

definition summary :: "stats \<Rightarrow> int64 \<Rightarrow> summary_line list" where
  "summary s totalDur =
     [Header, Requests (total_n s) (success s) (failed s)]
     @ (if 0 <s total_n s then [Latency (avg s) (minLatency s) (maxLatency s)] else [])
     @ [Runtime totalDur]"

section \<open>The worker goroutine\<close>

text \<open>
  The objects a worker shares with the other goroutines: the number of values held in
  the channel \<^verbatim>\<open>sem\<close>, the tokens buffered in \<^verbatim>\<open>tokenCh\<close> (\<open>None\<close> when
  \<^verbatim>\<open>tokenCh\<close> is nil, which is the case \<^verbatim>\<open>rate = 0\<close>), whether \<^verbatim>\<open>ctx.Done()\<close> is
  closed, and the results buffered in the channel \<^verbatim>\<open>results\<close>, whose capacity is 1000.
\<close>

record shared =
  sem :: nat
  tokenCh :: "nat option"
  ctx_done :: bool
  results :: "Result list"

record config =
  concurrency :: nat
  retries :: int

text \<open>
  The places of the goroutine body where a worker can stand:
  \<^item> \<open>AtAcquire\<close>: before \<^verbatim>\<open>sem <- struct{}{}\<close>;
  \<^item> \<open>AtToken\<close>: before \<^verbatim>\<open>if tokenCh != nil { select { ... } }\<close>;
  \<^item> \<open>AtPing\<close>: before \<^verbatim>\<open>res := pingWithRetries(ctx, client, url, *retries)\<close>;
  \<^item> \<open>AtSubmit res\<close>: before the \<^verbatim>\<open>select\<close> that sends \<^verbatim>\<open>res\<close> on \<^verbatim>\<open>results\<close>;
  \<^item> \<open>AtRelease\<close>: returning, before the deferred \<^verbatim>\<open><-sem\<close>;
  \<^item> \<open>Finished\<close>: after it.
\<close>

datatype pc = AtAcquire | AtToken | AtPing | AtSubmit Result | AtRelease | Finished

datatype action =
  Acquired
| NoLimiter
| TokenTaken
| CancelledAtToken
| Pinged Result
| Submitted Result
| CancelledAtSubmit Result
| Released

text \<open>
  One step of a worker.  A send on a full channel and a receive on an empty one have
  no step: the worker is blocked.  A \<^verbatim>\<open>select\<close> has one rule per case that is ready.
  The send \<^verbatim>\<open>sem <- struct{}{}\<close> is a plain statement, outside any \<^verbatim>\<open>select\<close>: its
  only rule is \<open>acquire\<close>.  If \<^verbatim>\<open>ctx.Done()\<close> is closed when \<^verbatim>\<open>pingWithRetries\<close> is
  called, its first check of \<^verbatim>\<open>ctx.Err()\<close> sees it.  The deferred \<^verbatim>\<open>wg.Done()\<close>, which
  runs after the release, touches none of these objects and has no step here.
\<close>

inductive wstep :: "config \<Rightarrow> env \<Rightarrow> string \<Rightarrow> pc \<times> shared \<Rightarrow> action \<Rightarrow> pc \<times> shared \<Rightarrow> bool"
  for c :: config and e :: env and url :: string
where
  acquire: "sem sh < concurrency c \<Longrightarrow>
      wstep c e url (AtAcquire, sh) Acquired (AtToken, sh\<lparr>sem := Suc (sem sh)\<rparr>)"
| no_limiter: "tokenCh sh = None \<Longrightarrow>
      wstep c e url (AtToken, sh) NoLimiter (AtPing, sh)"
| token: "tokenCh sh = Some (Suc n) \<Longrightarrow>
      wstep c e url (AtToken, sh) TokenTaken (AtPing, sh\<lparr>tokenCh := Some n\<rparr>)"
| token_cancel: "tokenCh sh = Some n \<Longrightarrow> ctx_done sh \<Longrightarrow>
      wstep c e url (AtToken, sh) CancelledAtToken (AtRelease, sh)"
| ping: "(ctx_done sh \<longrightarrow> cancelled e 0) \<Longrightarrow> r = fst (pingWithRetries e url (retries c)) \<Longrightarrow>
      wstep c e url (AtPing, sh) (Pinged r) (AtSubmit r, sh)"
| submit: "length (results sh) < 1000 \<Longrightarrow>
      wstep c e url (AtSubmit r, sh) (Submitted r) (AtRelease, sh\<lparr>results := results sh @ [r]\<rparr>)"
| submit_cancel: "ctx_done sh \<Longrightarrow>
      wstep c e url (AtSubmit r, sh) (CancelledAtSubmit r) (AtRelease, sh)"
| release:
      "wstep c e url (AtRelease, sh) Released (Finished, sh\<lparr>sem := sem sh - 1\<rparr>)"

code_pred wstep .

text \<open>
  Between two steps of a worker the other goroutines run.  They may change every shared
  object, except that \<^verbatim>\<open>tokenCh\<close> stays nil or stays a channel and that a closed
  \<^verbatim>\<open>ctx.Done()\<close> stays closed.
\<close>

definition interference :: "shared \<Rightarrow> shared \<Rightarrow> bool" where
  "interference sh sh' =
     ((tokenCh sh = None) = (tokenCh sh' = None) \<and> (ctx_done sh \<longrightarrow> ctx_done sh'))"

text \<open>A run of a worker, with the actions it takes in order.\<close>

inductive wrun :: "config \<Rightarrow> env \<Rightarrow> string \<Rightarrow> pc \<times> shared \<Rightarrow> action list \<Rightarrow> pc \<times> shared \<Rightarrow> bool"
  for c :: config and e :: env and url :: string
where
  stop: "wrun c e url (p, sh) [] (p, sh)"
| step: "wstep c e url (p, sh) a (p1, sh1) \<Longrightarrow> interference sh1 sh2 \<Longrightarrow>
      wrun c e url (p1, sh2) as fin \<Longrightarrow> wrun c e url (p, sh) (a # as) fin"

code_pred wrun .

text \<open>The results a run sends to the collector, and whether it took a cancellation case.\<close>

definition submissions :: "action list \<Rightarrow> Result list" where
  "submissions as = concat (map (\<lambda>a. case a of Submitted r \<Rightarrow> [r] | _ \<Rightarrow> []) as)"

definition took_cancel :: "action list \<Rightarrow> bool" where
  "took_cancel as =
     list_ex (\<lambda>a. case a of CancelledAtToken \<Rightarrow> True | CancelledAtSubmit r \<Rightarrow> True | _ \<Rightarrow> False) as"

text \<open>\<open>precedes x y as\<close>: an \<open>x\<close> occurs in \<open>as\<close> before the first \<open>y\<close>.\<close>

definition precedes :: "action \<Rightarrow> action \<Rightarrow> action list \<Rightarrow> bool" where
  "precedes x y as = (x \<in> set (takeWhile (\<lambda>a. a \<noteq> y) as))"

section \<open>The average of the specification\<close>

text \<open>
  The average latency as the specification words it: the sum of the latencies of the
  error-free results divided by the number of those results, and zero if there is none.
\<close>

definition spec_average :: "Result list \<Rightarrow> int64" where
  "spec_average rs =
    (let xs = filter (\<lambda>r. Error r = None) rs
     in if xs = [] then 0 else div64 (sum_list (map Duration xs)) (of_nat (length xs)))"

section \<open>Sample inputs\<close>

definition resA :: Result where
  "resA = \<lparr>URL = ''https://a.test'', Status = 200, Duration = 10000000, Error = None, When = 1\<rparr>"

definition resB :: Result where
  "resB = \<lparr>URL = ''https://b.test'', Status = 0, Duration = 3000000,
     Error = Some (TransportError ''connection refused''), When = 2\<rparr>"

text \<open>An attempt that gets no response, and attempts that are answered with a status.\<close>

definition refused :: attempt_env where
  "refused = \<lparr>do_req = (\<lambda>m. (None, Some (TransportError ''connection refused''))),
     start = 5, elapsed = 3000000\<rparr>"

definition answered :: "int \<Rightarrow> attempt_env" where
  "answered st = \<lparr>do_req = (\<lambda>m. (Some \<lparr>StatusCode = st\<rparr>, None)), start = 7, elapsed = 4000000\<rparr>"

text \<open>A host that never answers, with no cancellation.\<close>

definition env_down :: env where
  "env_down = \<lparr>cancelled = (\<lambda>k. False), attempt_of = (\<lambda>k. refused),
     sleep = (\<lambda>k. 150000000), wait = (\<lambda>k. TimerFired), now = (\<lambda>k. 9)\<rparr>"

text \<open>A host that answers 503 and then 430.\<close>

definition env_430 :: env where
  "env_430 = \<lparr>cancelled = (\<lambda>k. False),
     attempt_of = (\<lambda>k. if k = 0 then answered 503 else answered 430),
     sleep = (\<lambda>k. 150000000), wait = (\<lambda>k. TimerFired), now = (\<lambda>k. 9)\<rparr>"

text \<open>A run that is cancelled before the worker starts.\<close>

definition env_cancelled :: env where
  "env_cancelled = \<lparr>cancelled = (\<lambda>k. True), attempt_of = (\<lambda>k. answered 200),
     sleep = (\<lambda>k. 150000000), wait = (\<lambda>k. CtxDone), now = (\<lambda>k. 9)\<rparr>"

text \<open>A host that answers 200, with no cancellation seen by \<^verbatim>\<open>pingWithRetries\<close>.\<close>

definition env_up :: env where
  "env_up = \<lparr>cancelled = (\<lambda>k. False), attempt_of = (\<lambda>k. answered 200),
     sleep = (\<lambda>k. 150000000), wait = (\<lambda>k. TimerFired), now = (\<lambda>k. 9)\<rparr>"

definition cfg1 :: config where
  "cfg1 = \<lparr>concurrency = 1, retries = 0\<rparr>"

text \<open>
  Shared states: a free gate with one token; a free gate without rate limiter; after
  cancellation, a free gate with no token, a free gate without rate limiter, and a full
  gate.
\<close>

definition sh_free :: shared where
  "sh_free = \<lparr>sem = 0, tokenCh = Some 1, ctx_done = False, results = []\<rparr>"

definition sh_open :: shared where
  "sh_open = \<lparr>sem = 0, tokenCh = None, ctx_done = False, results = []\<rparr>"

definition sh_cancelled :: shared where
  "sh_cancelled = \<lparr>sem = 0, tokenCh = Some 0, ctx_done = True, results = []\<rparr>"

definition sh_unlimited :: shared where
  "sh_unlimited = \<lparr>sem = 0, tokenCh = None, ctx_done = True, results = []\<rparr>"

definition sh_full :: shared where
  "sh_full = \<lparr>sem = 1, tokenCh = Some 0, ctx_done = True, results = []\<rparr>"

section \<open>Properties of the collector and the summary\<close>

lemma collect_Nil: "collect s [] = s"
  by (simp add: collect_def)

lemma collect_snoc: "collect s (rs @ [r]) = consume (collect s rs) r"
  by (simp add: collect_def)

lemma collect_Cons: "collect s (r # rs) = collect (consume s r) rs"
  by (simp add: collect_def)

lemma total_consume: "total_n (consume s r) = total_n s + 1"
  by (simp add: consume_def Let_def split: option.split)

lemma success_consume: "success (consume s r) = (if ok r then success s + 1 else success s)"
  by (simp add: consume_def Let_def split: option.split)

lemma failed_consume: "failed (consume s r) = (if ok r then failed s else failed s + 1)"
  by (simp add: consume_def Let_def split: option.split)

lemma sumNanos_consume:
  "sumNanos (consume s r) = (if Error r = None then sumNanos s + Duration r else sumNanos s)"
  by (simp add: consume_def Let_def split: option.split)

lemma minLatency_consume:
  "minLatency (consume s r) =
     (if Error r = None \<and> Duration r <s minLatency s then Duration r else minLatency s)"
  by (simp add: consume_def Let_def split: option.split)

lemma maxLatency_consume:
  "maxLatency (consume s r) =
     (if Error r = None \<and> maxLatency s <s Duration r then Duration r else maxLatency s)"
  by (simp add: consume_def Let_def split: option.split)

lemma total_collect: "total_n (collect s rs) = total_n s + of_nat (length rs)"
  by (induction rs arbitrary: s) (simp_all add: collect_Nil collect_Cons total_consume)

lemma success_collect: "success (collect s rs) = success s + of_nat (length (filter ok rs))"
  by (induction rs arbitrary: s) (simp_all add: collect_Nil collect_Cons success_consume)

lemma failed_collect:
  "failed (collect s rs) = failed s + of_nat (length (filter (\<lambda>r. \<not> ok r) rs))"
  by (induction rs arbitrary: s) (simp_all add: collect_Nil collect_Cons failed_consume)

lemma sumNanos_collect:
  "sumNanos (collect s rs) = sumNanos s + sum_list (map Duration (filter (\<lambda>r. Error r = None) rs))"
  by (induction rs arbitrary: s) (simp_all add: collect_Nil collect_Cons sumNanos_consume)

lemma minLatency_collect:
  "minLatency (collect s rs) =
     foldl (\<lambda>m n. if n <s m then n else m) (minLatency s)
       (map Duration (filter (\<lambda>r. Error r = None) rs))"
  by (induction rs arbitrary: s) (simp_all add: collect_Nil collect_Cons minLatency_consume)

lemma maxLatency_collect:
  "maxLatency (collect s rs) =
     foldl (\<lambda>m n. if m <s n then n else m) (maxLatency s)
       (map Duration (filter (\<lambda>r. Error r = None) rs))"
  by (induction rs arbitrary: s) (simp_all add: collect_Nil collect_Cons maxLatency_consume)

lemma min_max_consume:
  "Error r = None \<Longrightarrow>
     minLatency (consume s r) <=s Duration r \<and> Duration r <=s maxLatency (consume s r)"
  by (simp add: minLatency_consume maxLatency_consume word_sle_eq word_sless_alt)

lemma min_le_max_collect:
  "\<exists>x\<in>set rs. Error x = None \<Longrightarrow>
     minLatency (collect s rs) <=s maxLatency (collect s rs)"
proof (induction rs rule: rev_induct)
  case Nil
  then show ?case by simp
next
  case (snoc r rs)
  let ?st = "collect s rs"
  show ?case
  proof (cases "Error r = None")
    case True
    from min_max_consume [OF True, of ?st] show ?thesis
      by (simp add: collect_snoc word_sle_eq)
  next
    case False
    with snoc.prems have "\<exists>x\<in>set rs. Error x = None" by auto
    then have "minLatency ?st <=s maxLatency ?st" by (rule snoc.IH)
    with False show ?thesis
      by (auto simp add: collect_snoc minLatency_consume maxLatency_consume)
  qed
qed

lemma counters_init:
  "total_n (collect init_stats rs) = of_nat (length rs)"
  "success (collect init_stats rs) = of_nat (length (filter ok rs))"
  "failed (collect init_stats rs) = of_nat (length (filter (\<lambda>r. \<not> ok r) rs))"
  by (simp_all add: total_collect success_collect failed_collect init_stats_def)

lemma count_split: "length (filter P xs) + length (filter (\<lambda>x. \<not> P x) xs) = length xs"
  by (induction xs) simp_all

lemma sint_of_nat_small: "n < 2 ^ 63 \<Longrightarrow> sint (of_nat n :: int64) = int n"
  by (simp add: signed_of_nat signed_take_bit_int_eq_self)

lemma sint_word_of_int: "- (2 ^ 63) \<le> x \<Longrightarrow> x < 2 ^ 63 \<Longrightarrow> sint (word_of_int x :: int64) = x"
  by (simp add: signed_of_int signed_take_bit_int_eq_self)

lemma sint_sum_list:
  assumes "\<forall>w\<in>set ws. 0 <=s w" and "sum_list (map sint ws) < 2 ^ 63"
  shows "sint (sum_list ws :: int64) = sum_list (map sint ws)"
  using assms
proof (induction ws)
  case Nil
  then show ?case by simp
next
  case (Cons w ws)
  from Cons.prems(1) have w0: "0 \<le> sint w" by (simp add: word_sle_eq)
  from Cons.prems(1) have nn: "0 \<le> sum_list (map sint ws)"
    by (intro sum_list_nonneg) (auto simp add: word_sle_eq)
  from Cons.prems(2) w0 have "sum_list (map sint ws) < 2 ^ 63" by simp
  with Cons have ih: "sint (sum_list ws) = sum_list (map sint ws)" by simp
  have "sint (w + sum_list ws) = signed_take_bit 63 (sint w + sint (sum_list ws))"
    by (simp add: sint_word_ariths)
  also have "\<dots> = sint w + sum_list (map sint ws)"
    unfolding ih using w0 nn Cons.prems(2) by (intro signed_take_bit_int_eq_self) simp_all
  finally show ?case by simp
qed

lemma sint_div64:
  assumes "0 < sint a" and "0 < sint b"
  shows "sint (div64 a b) = sint a div sint b"
proof -
  have eq: "sint a sdiv sint b = sint a div sint b"
    using assms by (simp add: signed_divide_int_def sgn_if)
  have "0 \<le> sint a div sint b" using assms by (simp add: pos_imp_zdiv_nonneg_iff)
  moreover have "sint a div sint b \<le> sint a div 1"
    using assms by (intro zdiv_mono2) simp_all
  moreover have "sint a < 2 ^ 63" using sint_lt [of a] by simp
  ultimately show ?thesis
    unfolding div64_def eq by (intro sint_word_of_int) simp_all
qed

lemma sle_of_nat: "m \<le> n \<Longrightarrow> n < 2 ^ 63 \<Longrightarrow> (of_nat m :: int64) <=s of_nat n"
  by (simp add: word_sle_eq sint_of_nat_small)

lemma latency_untouched:
  assumes "\<forall>r\<in>set rs. Error r \<noteq> None"
  shows "minLatency (collect s rs) = minLatency s \<and> maxLatency (collect s rs) = maxLatency s
     \<and> sumNanos (collect s rs) = sumNanos s"
proof -
  from assms have "filter (\<lambda>r. Error r = None) rs = []"
    by (simp add: filter_empty_conv)
  then show ?thesis
    by (simp add: minLatency_collect maxLatency_collect sumNanos_collect)
qed

lemmas run_simps = collect_def consume_def init_stats_def ok_def MaxInt64_def Let_def
  word_sless_alt word_sle_eq

text \<open>
  Claim C7.  After the collector has consumed a result, \<open>total = success + failed\<close>
  holds (in \<^verbatim>\<open>int64\<close> arithmetic).  Consuming a result does not decrease \<open>total\<close>,
  \<open>success\<close> or \<open>failed\<close>, as long as fewer than \<open>2^63 - 1\<close> results were consumed
  before it, which is where an \<^verbatim>\<open>int64\<close> counter would wrap.  Once one of the consumed
  results is error-free, \<open>minLatency \<le> maxLatency\<close>.
\<close>

theorem aggregator_invariant:
  "(let st = collect init_stats rs; st' = consume st r in
      total_n st' = success st' + failed st'
    \<and> (length rs < 2 ^ 63 - 1 \<longrightarrow>
         total_n st <=s total_n st' \<and> success st <=s success st' \<and> failed st <=s failed st')
    \<and> ((\<exists>x\<in>set (rs @ [r]). Error x = None) \<longrightarrow> minLatency st' <=s maxLatency st'))"
proof -
  let ?st = "collect init_stats rs"
  let ?st' = "consume ?st r"
  have st': "?st' = collect init_stats (rs @ [r])"
    by (simp add: collect_snoc)
  have "length (filter ok (rs @ [r])) + length (filter (\<lambda>x. \<not> ok x) (rs @ [r])) = length (rs @ [r])"
    by (rule count_split)
  then have "(of_nat (length (filter ok (rs @ [r]))) :: int64)
               + of_nat (length (filter (\<lambda>x. \<not> ok x) (rs @ [r]))) = of_nat (length (rs @ [r]))"
    by (metis of_nat_add)
  then have 1: "total_n ?st' = success ?st' + failed ?st'"
    unfolding st' counters_init by simp
  have 2: "total_n ?st <=s total_n ?st' \<and> success ?st <=s success ?st' \<and> failed ?st <=s failed ?st'"
    if b: "length rs < 2 ^ 63 - 1"
  proof -
    have f1: "length (filter ok (rs @ [r])) \<le> length (rs @ [r])"
      "length (filter (\<lambda>x. \<not> ok x) (rs @ [r])) \<le> length (rs @ [r])"
      by (rule length_filter_le)+
    from b have b': "length (rs @ [r]) < 2 ^ 63" by simp
    have "total_n ?st <=s total_n ?st'"
      unfolding st' counters_init using b' by (intro sle_of_nat) simp_all
    moreover have "success ?st <=s success ?st'"
      unfolding st' counters_init
    proof (rule sle_of_nat)
      show "length (filter ok rs) \<le> length (filter ok (rs @ [r]))" by simp
      from f1(1) b' show "length (filter ok (rs @ [r])) < 2 ^ 63" by (rule le_less_trans)
    qed
    moreover have "failed ?st <=s failed ?st'"
      unfolding st' counters_init
    proof (rule sle_of_nat)
      show "length (filter (\<lambda>x. \<not> ok x) rs) \<le> length (filter (\<lambda>x. \<not> ok x) (rs @ [r]))" by simp
      from f1(2) b' show "length (filter (\<lambda>x. \<not> ok x) (rs @ [r])) < 2 ^ 63" by (rule le_less_trans)
    qed
    ultimately show ?thesis by simp
  qed
  have 3: "minLatency ?st' <=s maxLatency ?st'" if "\<exists>x\<in>set (rs @ [r]). Error x = None"
    unfolding st' using that by (rule min_le_max_collect)
  from 1 2 3 show ?thesis by (simp add: Let_def)
qed

text \<open>The theorem at a run of two results, one answered and one refused.\<close>

theorem aggregator_invariant_witness:
  "length [resA] < 2 ^ 63 - 1 \<and> (\<exists>x\<in>set ([resA] @ [resB]). Error x = None)
   \<and> (let st = collect init_stats [resA]; st' = consume st resB in
        total_n st' = 2 \<and> success st' = 1 \<and> failed st' = 1
      \<and> total_n st' = success st' + failed st'
      \<and> total_n st <=s total_n st' \<and> success st <=s success st' \<and> failed st <=s failed st'
      \<and> minLatency st' <=s maxLatency st')"
  using aggregator_invariant [of "[resA]" resB]
  by (simp add: run_simps resA_def resB_def)

text \<open>
  Claim C8.  The collector adds a consumed result to \<open>success\<close> if its error is absent
  and its status is 0 or below 400, and to \<open>failed\<close> otherwise.  A result with status 0
  and no error is added to \<open>success\<close>, and its duration enters \<open>minLatency\<close> and
  \<open>maxLatency\<close>.
\<close>

theorem success_classification:
  "(Error r = None \<and> (Status r = 0 \<or> Status r < 400) \<longrightarrow>
      success (consume s r) = success s + 1 \<and> failed (consume s r) = failed s)
   \<and> (\<not> (Error r = None \<and> (Status r = 0 \<or> Status r < 400)) \<longrightarrow>
      success (consume s r) = success s \<and> failed (consume s r) = failed s + 1)
   \<and> (Error r = None \<and> Status r = 0 \<longrightarrow>
      success (consume s r) = success s + 1
      \<and> minLatency (consume s r) = (if Duration r <s minLatency s then Duration r else minLatency s)
      \<and> maxLatency (consume s r) = (if maxLatency s <s Duration r then Duration r else maxLatency s)
      \<and> minLatency (consume s r) <=s Duration r \<and> Duration r <=s maxLatency (consume s r))"
  using min_max_consume [of r s]
  by (simp add: success_consume failed_consume minLatency_consume maxLatency_consume ok_def)

text \<open>The theorem at an error-free result of status 0 and at a refused connection.\<close>

theorem success_classification_witness:
  "Error (resA\<lparr>Status := 0\<rparr>) = None \<and> Status (resA\<lparr>Status := 0\<rparr>) = 0
   \<and> success (consume init_stats (resA\<lparr>Status := 0\<rparr>)) = 1
   \<and> failed (consume init_stats (resA\<lparr>Status := 0\<rparr>)) = 0
   \<and> minLatency (consume init_stats (resA\<lparr>Status := 0\<rparr>)) = 10000000
   \<and> maxLatency (consume init_stats (resA\<lparr>Status := 0\<rparr>)) = 10000000
   \<and> \<not> (Error resB = None \<and> (Status resB = 0 \<or> Status resB < 400))
   \<and> success (consume init_stats resB) = 0 \<and> failed (consume init_stats resB) = 1"
  using success_classification [of "resA\<lparr>Status := 0\<rparr>" init_stats]
    success_classification [of resB init_stats]
  by (simp add: resA_def resB_def init_stats_def MaxInt64_def word_sless_alt)

text \<open>
  Claim C10.  If every consumed result carries an error, \<open>minLatency\<close> is still its
  initial value \<open>2^63 - 1\<close> and \<open>maxLatency\<close> is still 0, and whenever \<open>total > 0\<close> the
  summary prints a latency line with the average 0 and these two values.
\<close>

theorem sentinels_printed:
  assumes "\<forall>r\<in>set rs. Error r \<noteq> None"
  shows "minLatency (collect init_stats rs) = 9223372036854775807
       \<and> sint (minLatency (collect init_stats rs)) = 2 ^ 63 - 1
       \<and> maxLatency (collect init_stats rs) = 0
       \<and> (0 <s total_n (collect init_stats rs) \<longrightarrow>
            summary (collect init_stats rs) d =
              [Header,
               Requests (total_n (collect init_stats rs)) (success (collect init_stats rs))
                 (failed (collect init_stats rs)),
               Latency 0 9223372036854775807 0,
               Runtime d])"
  using latency_untouched [OF assms, of init_stats]
  by (simp add: summary_def avg_def init_stats_def MaxInt64_def)

text \<open>The theorem at a run of two refused connections.\<close>

theorem sentinels_printed_witness:
  "Error resB \<noteq> None
   \<and> 0 <s total_n (collect init_stats [resB, resB])
   \<and> summary (collect init_stats [resB, resB]) 77 =
       [Header, Requests 2 0 2, Latency 0 9223372036854775807 0, Runtime 77]"
  using sentinels_printed [of "[resB, resB]" 77]
  by (simp add: resB_def counters_init ok_def word_sless_alt)

text \<open>
  After the collector has consumed the results \<open>rs\<close>, \<open>sumNanos\<close> is the sum,
  \<open>minLatency\<close> the least (or the initial \<open>2^63 - 1\<close>) and \<open>maxLatency\<close> the greatest
  (or the initial 0) of the durations of the error-free results among \<open>rs\<close>.  The
  average computed from that state is \<open>sumNanos\<close> divided by the number of all consumed
  results, error results included, when both are positive, and zero otherwise.
\<close>

lemma collector_latency:
  "(let st = collect init_stats rs;
        good = filter (\<lambda>r. Error r = None) rs;
        lat = map Duration good;
        tot = (of_nat (length rs) :: int64)
    in sumNanos st = sum_list lat
     \<and> minLatency st = foldl (\<lambda>m n. if n <s m then n else m) MaxInt64 lat
     \<and> maxLatency st = foldl (\<lambda>m n. if m <s n then n else m) 0 lat
     \<and> avg st = (if 0 <s tot \<and> 0 <s sum_list lat then div64 (sum_list lat) tot else 0)
     \<and> (good = [] \<longrightarrow> avg st = 0)
     \<and> ((\<forall>r\<in>set good. 0 <=s Duration r) \<and> length rs < 2 ^ 63
            \<and> sum_list (map sint lat) < 2 ^ 63
          \<longrightarrow> sint (avg st) = sum_list (map sint lat) div int (length rs)))"
proof -
  define st where "st = collect init_stats rs"
  define good where "good = filter (\<lambda>r. Error r = None) rs"
  define lat where "lat = map Duration good"
  define tot :: int64 where "tot = of_nat (length rs)"
  have s: "sumNanos st = sum_list lat"
    and mn: "minLatency st = foldl (\<lambda>m n. if n <s m then n else m) MaxInt64 lat"
    and mx: "maxLatency st = foldl (\<lambda>m n. if m <s n then n else m) 0 lat"
    and t: "total_n st = tot"
    by (simp_all add: st_def good_def lat_def tot_def sumNanos_collect minLatency_collect
        maxLatency_collect total_collect init_stats_def)
  have a: "avg st = (if 0 <s tot \<and> 0 <s sum_list lat then div64 (sum_list lat) tot else 0)"
    by (simp add: avg_def s t)
  have z: "avg st = 0" if "good = []"
    using that by (simp add: a lat_def)
  have i: "sint (avg st) = sum_list (map sint lat) div int (length rs)"
    if nn: "\<forall>r\<in>set good. 0 <=s Duration r" and len: "length rs < 2 ^ 63"
      and sm: "sum_list (map sint lat) < 2 ^ 63"
  proof -
    from nn have "\<forall>w\<in>set lat. 0 <=s w" by (simp add: lat_def)
    then have ss: "sint (sum_list lat) = sum_list (map sint lat)"
      using sm by (rule sint_sum_list)
    from len have st: "sint tot = int (length rs)"
      unfolding tot_def by (rule sint_of_nat_small)
    show ?thesis
    proof (cases "0 <s tot \<and> 0 <s sum_list lat")
      case True
      then have "0 < sint (sum_list lat)" "0 < sint tot" by (simp_all add: word_sless_alt)
      then have "sint (div64 (sum_list lat) tot) = sint (sum_list lat) div sint tot"
        by (rule sint_div64)
      with True show ?thesis by (simp add: a ss st)
    next
      case False
      from nn have "0 \<le> sum_list (map sint lat)"
        by (intro sum_list_nonneg) (auto simp add: lat_def word_sle_eq)
      with False have "sum_list (map sint lat) = 0 \<or> length rs = 0"
        by (auto simp add: word_sless_alt ss st)
      with False show ?thesis by (auto simp add: a)
    qed
  qed
  from s mn mx a z i show ?thesis
    unfolding st_def good_def lat_def tot_def Let_def by blast
qed

lemma summary_settled:
  "main_summary (total_n s) (success s) (failed s) (sumNanos s) (sumNanos s)
     (minLatency s) (maxLatency s) d = summary s d"
  by (simp add: main_summary_def summary_def avg_def)

text \<open>
  Claim C4, a slip of the code.  The claim takes the reported average over the
  error-free results only and the summary from the final state of the collector.  Let a
  run produce one error-free result of 10 ms and one transport error.
  \<^item> When the collector has consumed both before \<^verbatim>\<open>main\<close> reads, the summary reports
    2 requests and an average of 5 ms, below the minimum of 10 ms it reports beside it:
    \<^verbatim>\<open>sumNanos / tot\<close> divides the sum over the error-free results by the number of all
    results.  The average over the error-free results is 10 ms.
  \<^item> When the collector has consumed only the transport error at the loads of
    \<^verbatim>\<open>total\<close>, \<^verbatim>\<open>success\<close> and \<^verbatim>\<open>failed\<close>, and the other result before the reads of
    \<^verbatim>\<open>sumNanos\<close>, \<^verbatim>\<open>minLatency\<close> and \<^verbatim>\<open>maxLatency\<close>, the summary reports 1 request,
    no success, and latencies of 10 ms: it is the summary of no state of the collector.
  \<^item> When the collector has consumed nothing yet, the summary reports no request.
\<close>

theorem average_below_minimum:
  "summary (collect init_stats [resB, resA]) 77 =
     [Header, Requests 2 1 1, Latency 5000000 10000000 10000000, Runtime 77]
   \<and> avg (collect init_stats [resB, resA]) <s minLatency (collect init_stats [resB, resA])
   \<and> spec_average [resB, resA] = 10000000
   \<and> main_summary (total_n (collect init_stats [resB])) (success (collect init_stats [resB]))
        (failed (collect init_stats [resB]))
        (sumNanos (collect init_stats [resB, resA])) (sumNanos (collect init_stats [resB, resA]))
        (minLatency (collect init_stats [resB, resA]))
        (maxLatency (collect init_stats [resB, resA])) 77 =
       [Header, Requests 1 0 1, Latency 10000000 10000000 10000000, Runtime 77]
   \<and> main_summary (total_n init_stats) (success init_stats) (failed init_stats)
        (sumNanos init_stats) (sumNanos init_stats) (minLatency init_stats)
        (maxLatency init_stats) 77 =
       [Header, Requests 0 0 0, Runtime 77]"
  by (simp add: run_simps resA_def resB_def summary_def avg_def main_summary_def
      spec_average_def div64_def)

section \<open>Properties of the retry loop\<close>

declare pingLoop.simps [simp del]

lemma pingLoop_unfold:
  "pingLoop e url R k lastR =
    (if int k \<le> R then
       if cancelled e k then (cancelResult e url k, [])
       else if \<not> retry_worthy (pingOnce (attempt_of e k) url)
       then (pingOnce (attempt_of e k) url, [Probe k])
       else if int k < R then
         (case wait e k of
            TimerFired \<Rightarrow>
              after [Probe k, Backoff k (sleep e k) TimerFired]
                (pingLoop e url R (Suc k) (pingOnce (attempt_of e k) url))
          | CtxDone \<Rightarrow>
              (cancelResult e url k,
               [Probe k, Backoff k (sleep e k) CtxDone]))
       else after [Probe k] (pingLoop e url R (Suc k) (pingOnce (attempt_of e k) url))
     else (lastR, []))"
  by (subst pingLoop.simps) (simp add: retry_worthy_def)

lemma pingLoop_terminal:
  assumes "int k \<le> R" and "\<not> cancelled e k"
    and "\<not> retry_worthy (pingOnce (attempt_of e k) url)"
  shows "pingLoop e url R k lastR = (pingOnce (attempt_of e k) url, [Probe k])"
  using assms by (subst pingLoop_unfold) simp

lemma pingLoop_last_irrelevant:
  "int k \<le> R \<Longrightarrow> pingLoop e url R k l1 = pingLoop e url R k l2"
  by (subst pingLoop_unfold, subst (2) pingLoop_unfold) simp

lemma probes_simps:
  "probes [] = []"
  "probes (Probe k # evs) = k # probes evs"
  "probes (Backoff k d w # evs) = probes evs"
  by (simp_all add: probes_def)

lemma pingLoop_all_fail:
  assumes "\<forall>k. a \<le> k \<and> int k \<le> R \<longrightarrow>
             \<not> cancelled e k \<and> retry_worthy (pingOnce (attempt_of e k) url)"
    and "\<forall>k. a \<le> k \<and> int k < R \<longrightarrow> wait e k = TimerFired"
    and "int a \<le> R"
  shows "fst (pingLoop e url R a lastR) = pingOnce (attempt_of e (nat R)) url
       \<and> probes (snd (pingLoop e url R a lastR)) = [a..<nat R + 1]"
  using assms
proof (induction e url R a lastR rule: pingLoop.induct)
  case (1 e url R a lastR)
  let ?res = "pingOnce (attempt_of e a) url"
  from "1.prems" have here: "\<not> cancelled e a" "retry_worthy ?res"
    by simp_all
  then have nt: "\<not> (Error ?res = None \<and> (Status ?res = 0 \<or> Status ?res < 500))"
    by (simp add: retry_worthy_def)
  show ?case
  proof (cases "int a < R")
    case True
    with "1.prems" have w: "wait e a = TimerFired" by simp
    have ih: "fst (pingLoop e url R (Suc a) ?res) = pingOnce (attempt_of e (nat R)) url
       \<and> probes (snd (pingLoop e url R (Suc a) ?res)) = [Suc a..<nat R + 1]"
      using "1.prems" True here nt w
      by (intro "1.IH"(1)) auto
    have unf: "pingLoop e url R a lastR =
        after [Probe a, Backoff a (sleep e a) TimerFired]
          (pingLoop e url R (Suc a) ?res)"
      using "1.prems"(3) here True w by (subst pingLoop_unfold) simp
    from True have "a < nat R + 1" by linarith
    then have "[a..<nat R + 1] = a # [Suc a..<nat R + 1]"
      by (rule upt_conv_Cons)
    with ih show ?thesis
      unfolding unf by (simp add: after_def probes_simps)
  next
    case False
    with "1.prems"(3) have eq: "int a = R" by simp
    have stop: "pingLoop e url R (Suc a) ?res = (?res, [])"
      using eq by (subst pingLoop_unfold) simp
    have unf: "pingLoop e url R a lastR = after [Probe a] (pingLoop e url R (Suc a) ?res)"
      using "1.prems"(3) here False by (subst pingLoop_unfold) simp
    have "nat R = a" using eq by simp
    then show ?thesis
      unfolding unf stop by (simp add: after_def probes_simps)
  qed
qed

lemma pingLoop_retries:
  assumes "\<forall>j. a \<le> j \<and> j < k \<longrightarrow>
             \<not> cancelled e j \<and> retry_worthy (pingOnce (attempt_of e j) url)
             \<and> wait e j = TimerFired"
    and "a \<le> k" and "int k \<le> R"
  shows "fst (pingLoop e url R a l1) = fst (pingLoop e url R k l2)
       \<and> probes (snd (pingLoop e url R a l1)) = [a..<k] @ probes (snd (pingLoop e url R k l2))"
  using assms
proof (induction "k - a" arbitrary: a l1)
  case 0
  then have "a = k" by simp
  with "0.prems"(3) show ?case
    using pingLoop_last_irrelevant [of k R e url l1 l2] by simp
next
  case (Suc n)
  let ?res = "pingOnce (attempt_of e a) url"
  from Suc.hyps(2) have lt: "a < k" by simp
  with Suc.prems have here: "\<not> cancelled e a" "retry_worthy ?res" "wait e a = TimerFired"
    by simp_all
  from lt Suc.prems(3) have ltR: "int a < R" by simp
  have unf: "pingLoop e url R a l1 =
      after [Probe a, Backoff a (sleep e a) TimerFired]
        (pingLoop e url R (Suc a) ?res)"
    using here ltR by (subst pingLoop_unfold) simp
  have ih: "fst (pingLoop e url R (Suc a) ?res) = fst (pingLoop e url R k l2)
       \<and> probes (snd (pingLoop e url R (Suc a) ?res)) =
           [Suc a..<k] @ probes (snd (pingLoop e url R k l2))"
    using Suc.hyps(2) Suc.prems lt by (intro Suc.hyps(1)) auto
  from lt have "[a..<k] = a # [Suc a..<k]" by (rule upt_conv_Cons)
  with ih show ?case unfolding unf by (simp add: after_def probes_simps)
qed

lemma retry_worthy_not_ok: "retry_worthy r \<Longrightarrow> \<not> ok r"
  by (auto simp add: retry_worthy_def ok_def)

lemma pingOnce_refused:
  "pingOnce refused url = \<lparr>URL = url, Status = 0, Duration = 3000000,
     Error = Some (TransportError ''connection refused''), When = 5\<rparr>"
  by (simp add: pingOnce_def refused_def)

lemma pingOnce_answered:
  "pingOnce (answered st) url = \<lparr>URL = url, Status = st, Duration = 4000000,
     Error = None, When = 7\<rparr>"
  by (simp add: pingOnce_def answered_def)

text \<open>
  Claim C1.  Let the attempts before attempt \<open>k\<close> have been retried, and let attempt
  \<open>k\<close> return no error and a status in \<open>[400, 500)\<close>.  Then \<^verbatim>\<open>pingWithRetries\<close> returns
  the result of attempt \<open>k\<close> and has probed \<open>k + 1\<close> times, so no attempt follows; and the
  collector adds this result to \<open>failed\<close> and not to \<open>success\<close>.
\<close>

theorem client_error_terminal:
  assumes "\<forall>j<k. \<not> cancelled e j \<and> retry_worthy (pingOnce (attempt_of e j) url)
             \<and> wait e j = TimerFired"
    and "int k \<le> R" and "\<not> cancelled e k"
    and "Error (pingOnce (attempt_of e k) url) = None"
    and "400 \<le> Status (pingOnce (attempt_of e k) url)"
    and "Status (pingOnce (attempt_of e k) url) < 500"
  shows "fst (pingWithRetries e url R) = pingOnce (attempt_of e k) url
       \<and> probes (snd (pingWithRetries e url R)) = [0..<Suc k]
       \<and> failed (consume s (fst (pingWithRetries e url R))) = failed s + 1
       \<and> success (consume s (fst (pingWithRetries e url R))) = success s"
proof -
  let ?res = "pingOnce (attempt_of e k) url"
  from assms(4,6) have "\<not> retry_worthy ?res" by (simp add: retry_worthy_def)
  with assms(2,3) have stop: "pingLoop e url R k zeroResult = (?res, [Probe k])"
    by (rule pingLoop_terminal)
  have "fst (pingLoop e url R 0 zeroResult) = fst (pingLoop e url R k zeroResult)
      \<and> probes (snd (pingLoop e url R 0 zeroResult)) =
          [0..<k] @ probes (snd (pingLoop e url R k zeroResult))"
    using assms(1,2) by (intro pingLoop_retries) simp_all
  then have run: "fst (pingWithRetries e url R) = ?res"
    "probes (snd (pingWithRetries e url R)) = [0..<Suc k]"
    unfolding stop pingWithRetries_def by (simp_all add: probes_simps)
  from assms(5) have "\<not> ok ?res" by (simp add: ok_def)
  then have "failed (consume s ?res) = failed s + 1" "success (consume s ?res) = success s"
    by (simp_all add: failed_consume success_consume)
  with run show ?thesis by simp
qed

text \<open>The theorem at a host that answers 503 and then 430, with a budget of 3 retries.\<close>

theorem client_error_terminal_witness:
  "fst (pingWithRetries env_430 ''https://a.test'' 3) =
     \<lparr>URL = ''https://a.test'', Status = 430, Duration = 4000000, Error = None, When = 7\<rparr>
   \<and> probes (snd (pingWithRetries env_430 ''https://a.test'' 3)) = [0, 1]
   \<and> failed (consume init_stats (fst (pingWithRetries env_430 ''https://a.test'' 3))) = 1
   \<and> success (consume init_stats (fst (pingWithRetries env_430 ''https://a.test'' 3))) = 0"
proof -
  let ?url = "''https://a.test''"
  have h1: "\<forall>j<1. \<not> cancelled env_430 j \<and> retry_worthy (pingOnce (attempt_of env_430 j) ?url)
             \<and> wait env_430 j = TimerFired"
    by (simp add: env_430_def pingOnce_answered retry_worthy_def)
  have h2: "int 1 \<le> 3" by simp
  have h3: "\<not> cancelled env_430 1" by (simp add: env_430_def)
  have h4: "Error (pingOnce (attempt_of env_430 1) ?url) = None"
    and h5: "400 \<le> Status (pingOnce (attempt_of env_430 1) ?url)"
    and h6: "Status (pingOnce (attempt_of env_430 1) ?url) < 500"
    by (simp_all add: env_430_def pingOnce_answered)
  have up: "[0..<Suc 1] = [0, 1]" by (simp add: upt_rec)
  have res: "pingOnce (attempt_of env_430 1) ?url =
      \<lparr>URL = ?url, Status = 430, Duration = 4000000, Error = None, When = 7\<rparr>"
    by (simp add: env_430_def pingOnce_answered)
  have st: "failed init_stats + 1 = 1" "success init_stats = 0"
    by (simp_all add: init_stats_def)
  from client_error_terminal [OF h1 h2 h3 h4 h5 h6, of init_stats] show ?thesis
    unfolding res up st .
qed

text \<open>
  Claim C2.  For a retry budget \<open>R \<ge> 0\<close> (below the largest \<^verbatim>\<open>int\<close>), if no check and
  no backoff wait sees a cancellation and every attempt is a retry-worthy failure, then
  \<^verbatim>\<open>pingWithRetries\<close> probes exactly \<open>R + 1\<close> times, at the attempt indices
  \<open>0, \<dots>, R\<close>, and returns the result of the last probe, which is a failure.
\<close>

theorem retries_exhausted:
  assumes "0 \<le> R" and "R < 2 ^ 63 - 1"
    and "\<forall>k. int k \<le> R \<longrightarrow> \<not> cancelled e k"
    and "\<forall>k. int k < R \<longrightarrow> wait e k = TimerFired"
    and "\<forall>k. int k \<le> R \<longrightarrow> retry_worthy (pingOnce (attempt_of e k) url)"
  shows "probes (snd (pingWithRetries e url R)) = [0..<nat R + 1]
       \<and> length (probes (snd (pingWithRetries e url R))) = nat R + 1
       \<and> fst (pingWithRetries e url R) = pingOnce (attempt_of e (nat R)) url
       \<and> retry_worthy (fst (pingWithRetries e url R))
       \<and> \<not> ok (fst (pingWithRetries e url R))"
proof -
  have run: "fst (pingLoop e url R 0 zeroResult) = pingOnce (attempt_of e (nat R)) url
       \<and> probes (snd (pingLoop e url R 0 zeroResult)) = [0..<nat R + 1]"
    using assms(1,3,4,5) by (intro pingLoop_all_fail) simp_all
  from assms(1,5) have rw: "retry_worthy (pingOnce (attempt_of e (nat R)) url)" by simp
  from run rw retry_worthy_not_ok [OF rw] show ?thesis
    by (simp add: pingWithRetries_def)
qed

text \<open>The theorem at a host that never answers, with a budget of 2 retries.\<close>

theorem retries_exhausted_witness:
  "probes (snd (pingWithRetries env_down ''https://b.test'' 2)) = [0, 1, 2]
   \<and> length (probes (snd (pingWithRetries env_down ''https://b.test'' 2))) = 3
   \<and> fst (pingWithRetries env_down ''https://b.test'' 2) =
       \<lparr>URL = ''https://b.test'', Status = 0, Duration = 3000000,
        Error = Some (TransportError ''connection refused''), When = 5\<rparr>
   \<and> \<not> ok (fst (pingWithRetries env_down ''https://b.test'' 2))"
proof -
  let ?url = "''https://b.test''"
  have h1: "(0::int) \<le> 2" and h0: "(2::int) < 2 ^ 63 - 1" by simp_all
  have h2: "\<forall>k. int k \<le> 2 \<longrightarrow> \<not> cancelled env_down k"
    and h3: "\<forall>k. int k < 2 \<longrightarrow> wait env_down k = TimerFired"
    and h4: "\<forall>k. int k \<le> 2 \<longrightarrow> retry_worthy (pingOnce (attempt_of env_down k) ?url)"
    by (simp_all add: env_down_def pingOnce_refused retry_worthy_def)
  have up: "[0..<nat 2 + 1] = [0, 1, 2]" by (simp add: upt_rec)
  have res: "pingOnce (attempt_of env_down (nat 2)) ?url =
      \<lparr>URL = ?url, Status = 0, Duration = 3000000,
        Error = Some (TransportError ''connection refused''), When = 5\<rparr>"
    by (simp add: env_down_def pingOnce_refused)
  from retries_exhausted [OF h1 h0 h2 h3 h4] have
    "probes (snd (pingWithRetries env_down ?url 2)) = [0, 1, 2]"
    "fst (pingWithRetries env_down ?url 2) =
       \<lparr>URL = ?url, Status = 0, Duration = 3000000,
        Error = Some (TransportError ''connection refused''), When = 5\<rparr>"
    "\<not> ok (fst (pingWithRetries env_down ?url 2))"
    unfolding res up by blast+
  then show ?thesis by simp
qed

section \<open>Properties of the worker\<close>

inductive_cases acquireE: "wstep c e url (AtAcquire, sh) a t"

inductive_cases tokenE: "wstep c e url (AtToken, sh) a t"

inductive_cases pingE: "wstep c e url (AtPing, sh) a t"

inductive_cases submitE: "wstep c e url (AtSubmit r, sh) a t"

inductive_cases releaseE: "wstep c e url (AtRelease, sh) a t"

inductive_cases finishedE: "wstep c e url (Finished, sh) a t"

inductive_cases run_nilE: "wrun c e url s [] t"

inductive_cases run_consE: "wrun c e url s (a # as) t"

lemma run_from_finished: "wrun c e url (Finished, sh) as t \<Longrightarrow> as = [] \<and> t = (Finished, sh)"
  by (cases as) (auto elim: run_nilE run_consE finishedE)

lemma run_from_release:
  "wrun c e url (AtRelease, sh) as (Finished, sh') \<Longrightarrow> as = [Released]"
  by (cases as) (auto elim!: run_nilE run_consE releaseE dest: run_from_finished)

lemma run_from_submit:
  "wrun c e url (AtSubmit r, sh) as (Finished, sh') \<Longrightarrow>
     as = [Submitted r, Released] \<or> as = [CancelledAtSubmit r, Released] \<and> ctx_done sh"
  by (cases as) (auto elim!: run_nilE run_consE submitE dest: run_from_release)

lemma run_from_ping:
  "wrun c e url (AtPing, sh) as (Finished, sh') \<Longrightarrow>
     (\<exists>r. r = fst (pingWithRetries e url (retries c))
        \<and> (as = [Pinged r, Submitted r, Released] \<or> as = [Pinged r, CancelledAtSubmit r, Released]))"
  by (cases as) (auto elim!: run_nilE run_consE pingE dest: run_from_submit)

lemma run_from_token:
  "wrun c e url (AtToken, sh) as (Finished, sh') \<Longrightarrow>
     (\<exists>r l. r = fst (pingWithRetries e url (retries c))
        \<and> l = (if tokenCh sh = None then NoLimiter else TokenTaken)
        \<and> (as = [l, Pinged r, Submitted r, Released]
            \<or> as = [l, Pinged r, CancelledAtSubmit r, Released]
            \<or> as = [CancelledAtToken, Released] \<and> tokenCh sh \<noteq> None \<and> ctx_done sh))"
  by (cases as) (auto elim!: run_nilE run_consE tokenE dest: run_from_ping run_from_release)

lemma run_task:
  "wrun c e url (AtAcquire, sh) as (Finished, sh') \<Longrightarrow>
     (\<exists>r l. r = fst (pingWithRetries e url (retries c))
        \<and> l = (if tokenCh sh = None then NoLimiter else TokenTaken)
        \<and> (as = [Acquired, l, Pinged r, Submitted r, Released]
            \<or> as = [Acquired, l, Pinged r, CancelledAtSubmit r, Released]
            \<or> as = [Acquired, CancelledAtToken, Released] \<and> tokenCh sh \<noteq> None))"
  by (cases as) (auto elim!: run_nilE run_consE acquireE dest!: run_from_token simp: interference_def)

lemma submissions_simps:
  "submissions [] = []"
  "submissions (Submitted r # as) = r # submissions as"
  "submissions (Acquired # as) = submissions as"
  "submissions (NoLimiter # as) = submissions as"
  "submissions (TokenTaken # as) = submissions as"
  "submissions (CancelledAtToken # as) = submissions as"
  "submissions (Pinged r # as) = submissions as"
  "submissions (CancelledAtSubmit r # as) = submissions as"
  "submissions (Released # as) = submissions as"
  by (simp_all add: submissions_def)

lemma step_same:
  assumes "wstep c e url (p, sh) a (p1, sh1)" and "wrun c e url (p1, sh1) as fin"
  shows "wrun c e url (p, sh) (a # as) fin"
proof -
  have "interference sh1 sh1" by (simp add: interference_def)
  with assms(1) show ?thesis using assms(2) by (rule wrun.step)
qed

lemma ping_down0:
  "fst (pingWithRetries env_down ''https://b.test'' 0) = resB\<lparr>When := 5\<rparr>"
  by code_simp

lemma ping_cancelled:
  "fst (pingWithRetries env_cancelled ''https://a.test'' 0) =
     \<lparr>URL = ''https://a.test'', Status = 0, Duration = 0, Error = Some Canceled, When = 9\<rparr>"
  by code_simp

lemma run_ok:
  "wrun cfg1 env_down ''https://b.test'' (AtAcquire, sh_free)
     [Acquired, TokenTaken, Pinged (resB\<lparr>When := 5\<rparr>), Submitted (resB\<lparr>When := 5\<rparr>), Released]
     (Finished, \<lparr>sem = 0, tokenCh = Some 0, ctx_done = False, results = [resB\<lparr>When := 5\<rparr>]\<rparr>)"
proof -
  let ?c = cfg1 and ?e = env_down and ?u = "''https://b.test''" and ?r = "resB\<lparr>When := 5\<rparr>"
  let ?s1 = "\<lparr>sem = 1, tokenCh = Some 1, ctx_done = False, results = []\<rparr>"
  let ?s2 = "\<lparr>sem = 1, tokenCh = Some 0, ctx_done = False, results = []\<rparr>"
  let ?s3 = "\<lparr>sem = 1, tokenCh = Some 0, ctx_done = False, results = [?r]\<rparr>"
  let ?s4 = "\<lparr>sem = 0, tokenCh = Some 0, ctx_done = False, results = [?r]\<rparr>"
  have 1: "wstep ?c ?e ?u (AtAcquire, sh_free) Acquired (AtToken, ?s1)"
    using wstep.acquire [of sh_free ?c ?e ?u] by (simp add: sh_free_def cfg1_def)
  have 2: "wstep ?c ?e ?u (AtToken, ?s1) TokenTaken (AtPing, ?s2)"
    using wstep.token [of ?s1 0 ?c ?e ?u] by simp
  have 3: "wstep ?c ?e ?u (AtPing, ?s2) (Pinged ?r) (AtSubmit ?r, ?s2)"
    using wstep.ping [of ?s2 ?e ?r ?u ?c] ping_down0 by (simp add: cfg1_def)
  have 4: "wstep ?c ?e ?u (AtSubmit ?r, ?s2) (Submitted ?r) (AtRelease, ?s3)"
    using wstep.submit [of ?s2 ?c ?e ?u ?r] by simp
  have 5: "wstep ?c ?e ?u (AtRelease, ?s3) Released (Finished, ?s4)"
    using wstep.release [of ?c ?e ?u ?s3] by simp
  show ?thesis
    by (intro step_same [OF 1] step_same [OF 2] step_same [OF 3] step_same [OF 4]
        step_same [OF 5] wrun.stop)
qed

lemma run_cancel_token:
  "wrun cfg1 env_cancelled ''https://a.test'' (AtAcquire, sh_cancelled)
     [Acquired, CancelledAtToken, Released] (Finished, sh_cancelled)"
proof -
  let ?c = cfg1 and ?e = env_cancelled and ?u = "''https://a.test''"
  let ?s1 = "\<lparr>sem = 1, tokenCh = Some 0, ctx_done = True, results = []\<rparr>"
  have 1: "wstep ?c ?e ?u (AtAcquire, sh_cancelled) Acquired (AtToken, ?s1)"
    using wstep.acquire [of sh_cancelled ?c ?e ?u] by (simp add: sh_cancelled_def cfg1_def)
  have 2: "wstep ?c ?e ?u (AtToken, ?s1) CancelledAtToken (AtRelease, ?s1)"
    using wstep.token_cancel [of ?s1 0 ?c ?e ?u] by simp
  have 3: "wstep ?c ?e ?u (AtRelease, ?s1) Released (Finished, sh_cancelled)"
    using wstep.release [of ?c ?e ?u ?s1] by (simp add: sh_cancelled_def)
  show ?thesis
    by (intro step_same [OF 1] step_same [OF 2] step_same [OF 3] wrun.stop)
qed

lemma run_cancel_submit:
  "wrun cfg1 env_cancelled ''https://a.test'' (AtAcquire, sh_unlimited)
     [Acquired, NoLimiter,
      Pinged \<lparr>URL = ''https://a.test'', Status = 0, Duration = 0, Error = Some Canceled, When = 9\<rparr>,
      CancelledAtSubmit
        \<lparr>URL = ''https://a.test'', Status = 0, Duration = 0, Error = Some Canceled, When = 9\<rparr>,
      Released]
     (Finished, sh_unlimited)"
proof -
  let ?c = cfg1 and ?e = env_cancelled and ?u = "''https://a.test''"
  let ?r = "\<lparr>URL = ''https://a.test'', Status = 0, Duration = 0, Error = Some Canceled, When = 9\<rparr>"
  let ?s1 = "\<lparr>sem = 1, tokenCh = None, ctx_done = True, results = []\<rparr>"
  have 1: "wstep ?c ?e ?u (AtAcquire, sh_unlimited) Acquired (AtToken, ?s1)"
    using wstep.acquire [of sh_unlimited ?c ?e ?u] by (simp add: sh_unlimited_def cfg1_def)
  have 2: "wstep ?c ?e ?u (AtToken, ?s1) NoLimiter (AtPing, ?s1)"
    using wstep.no_limiter [of ?s1 ?c ?e ?u] by simp
  have 3: "wstep ?c ?e ?u (AtPing, ?s1) (Pinged ?r) (AtSubmit ?r, ?s1)"
    using wstep.ping [of ?s1 ?e ?r ?u ?c] ping_cancelled
    by (simp add: cfg1_def env_cancelled_def)
  have 4: "wstep ?c ?e ?u (AtSubmit ?r, ?s1) (CancelledAtSubmit ?r) (AtRelease, ?s1)"
    using wstep.submit_cancel [of ?s1 ?c ?e ?u ?r] by simp
  have 5: "wstep ?c ?e ?u (AtRelease, ?s1) Released (Finished, sh_unlimited)"
    using wstep.release [of ?c ?e ?u ?s1] by (simp add: sh_unlimited_def)
  show ?thesis
    by (intro step_same [OF 1] step_same [OF 2] step_same [OF 3] step_same [OF 4]
        step_same [OF 5] wrun.stop)
qed

lemma ping_up:
  "fst (pingWithRetries env_up ''https://a.test'' 0) =
     \<lparr>URL = ''https://a.test'', Status = 200, Duration = 4000000, Error = None, When = 7\<rparr>"
  by code_simp

lemma run_drop_success:
  "wrun cfg1 env_up ''https://a.test'' (AtAcquire, sh_open)
     [Acquired, NoLimiter,
      Pinged \<lparr>URL = ''https://a.test'', Status = 200, Duration = 4000000, Error = None, When = 7\<rparr>,
      CancelledAtSubmit
        \<lparr>URL = ''https://a.test'', Status = 200, Duration = 4000000, Error = None, When = 7\<rparr>,
      Released]
     (Finished, sh_unlimited)"
proof -
  let ?c = cfg1 and ?e = env_up and ?u = "''https://a.test''"
  let ?r = "\<lparr>URL = ''https://a.test'', Status = 200, Duration = 4000000, Error = None, When = 7\<rparr>"
  let ?s1 = "\<lparr>sem = 1, tokenCh = None, ctx_done = False, results = []\<rparr>"
  let ?s2 = "\<lparr>sem = 1, tokenCh = None, ctx_done = True, results = []\<rparr>"
  have 1: "wstep ?c ?e ?u (AtAcquire, sh_open) Acquired (AtToken, ?s1)"
    using wstep.acquire [of sh_open ?c ?e ?u] by (simp add: sh_open_def cfg1_def)
  have 2: "wstep ?c ?e ?u (AtToken, ?s1) NoLimiter (AtPing, ?s1)"
    using wstep.no_limiter [of ?s1 ?c ?e ?u] by simp
  have 3: "wstep ?c ?e ?u (AtPing, ?s1) (Pinged ?r) (AtSubmit ?r, ?s1)"
    using wstep.ping [of ?s1 ?e ?r ?u ?c] ping_up by (simp add: cfg1_def)
  have i: "interference ?s1 ?s2" by (simp add: interference_def)
  have 4: "wstep ?c ?e ?u (AtSubmit ?r, ?s2) (CancelledAtSubmit ?r) (AtRelease, ?s2)"
    using wstep.submit_cancel [of ?s2 ?c ?e ?u ?r] by simp
  have 5: "wstep ?c ?e ?u (AtRelease, ?s2) Released (Finished, sh_unlimited)"
    using wstep.release [of ?c ?e ?u ?s2] by (simp add: sh_unlimited_def)
  have "wrun ?c ?e ?u (AtSubmit ?r, ?s2) [CancelledAtSubmit ?r, Released] (Finished, sh_unlimited)"
    by (intro step_same [OF 4] step_same [OF 5] wrun.stop)
  with 3 i have "wrun ?c ?e ?u (AtPing, ?s1) [Pinged ?r, CancelledAtSubmit ?r, Released]
      (Finished, sh_unlimited)"
    by (rule wrun.step)
  then show ?thesis
    by (intro step_same [OF 1] step_same [OF 2])
qed

text \<open>
  Claim C5 as stated fails: in this run with a rate limiter the permit is acquired before
  the token is taken, and no token is taken before the permit.
\<close>

theorem task_order_counterexample:
  "wrun cfg1 env_down ''https://b.test'' (AtAcquire, sh_free)
     [Acquired, TokenTaken, Pinged (resB\<lparr>When := 5\<rparr>), Submitted (resB\<lparr>When := 5\<rparr>), Released]
     (Finished, \<lparr>sem = 0, tokenCh = Some 0, ctx_done = False, results = [resB\<lparr>When := 5\<rparr>]\<rparr>)
   \<and> tokenCh sh_free \<noteq> None
   \<and> precedes Acquired TokenTaken
       [Acquired, TokenTaken, Pinged (resB\<lparr>When := 5\<rparr>), Submitted (resB\<lparr>When := 5\<rparr>), Released]
   \<and> \<not> precedes TokenTaken Acquired
       [Acquired, TokenTaken, Pinged (resB\<lparr>When := 5\<rparr>), Submitted (resB\<lparr>When := 5\<rparr>), Released]"
  using run_ok by (simp add: precedes_def sh_free_def)

text \<open>
  Claim C5, as amended.  A worker that runs to its end first acquires the admission
  permit, then takes a rate-limiter token (when there is a limiter), then runs
  \<^verbatim>\<open>pingWithRetries\<close>, then submits the result, then releases the permit.  When the
  cancellation case of the token wait or of the submission is taken, the worker goes
  straight to the release.  No token is taken before the permit.
\<close>

theorem task_order:
  assumes "wrun c e url (AtAcquire, sh) as (Finished, sh')"
  shows "(let r = fst (pingWithRetries e url (retries c));
              l = (if tokenCh sh = None then NoLimiter else TokenTaken)
          in as = [Acquired, l, Pinged r, Submitted r, Released]
           \<or> as = [Acquired, l, Pinged r, CancelledAtSubmit r, Released]
           \<or> as = [Acquired, CancelledAtToken, Released] \<and> tokenCh sh \<noteq> None)
       \<and> \<not> precedes TokenTaken Acquired as"
  using run_task [OF assms] by (auto simp add: Let_def precedes_def)

text \<open>The theorem at the run of the counterexample.\<close>

theorem task_order_witness:
  "\<not> precedes TokenTaken Acquired
       [Acquired, TokenTaken, Pinged (resB\<lparr>When := 5\<rparr>), Submitted (resB\<lparr>When := 5\<rparr>), Released]
   \<and> fst (pingWithRetries env_down ''https://b.test'' (retries cfg1)) = resB\<lparr>When := 5\<rparr>
   \<and> tokenCh sh_free = Some 1"
proof -
  from task_order [OF run_ok] have "\<not> precedes TokenTaken Acquired
       [Acquired, TokenTaken, Pinged (resB\<lparr>When := 5\<rparr>), Submitted (resB\<lparr>When := 5\<rparr>), Released]"
    by (rule conjunct2)
  moreover have "fst (pingWithRetries env_down ''https://b.test'' (retries cfg1)) = resB\<lparr>When := 5\<rparr>"
    using ping_down0 by (simp add: cfg1_def)
  moreover have "tokenCh sh_free = Some 1" by (simp add: sh_free_def)
  ultimately show ?thesis by blast
qed

text \<open>
  Claim C3 as stated fails: a worker that finds \<^verbatim>\<open>ctx.Done()\<close> closed at its token wait
  ends without submitting a result.  So does a worker that takes the cancellation case of
  the submission, whatever \<^verbatim>\<open>pingWithRetries\<close> returned: in the second run the
  cancellation error result, in the third run, where \<^verbatim>\<open>ctx.Done()\<close> is closed between
  the probe and the submission, an error-free result with status 200.
\<close>

theorem task_submission_counterexample:
  "wrun cfg1 env_cancelled ''https://a.test'' (AtAcquire, sh_cancelled)
     [Acquired, CancelledAtToken, Released] (Finished, sh_cancelled)
   \<and> submissions [Acquired, CancelledAtToken, Released] = []
   \<and> wrun cfg1 env_cancelled ''https://a.test'' (AtAcquire, sh_unlimited)
     [Acquired, NoLimiter,
      Pinged \<lparr>URL = ''https://a.test'', Status = 0, Duration = 0, Error = Some Canceled, When = 9\<rparr>,
      CancelledAtSubmit
        \<lparr>URL = ''https://a.test'', Status = 0, Duration = 0, Error = Some Canceled, When = 9\<rparr>,
      Released]
     (Finished, sh_unlimited)
   \<and> submissions [Acquired, NoLimiter,
      Pinged \<lparr>URL = ''https://a.test'', Status = 0, Duration = 0, Error = Some Canceled, When = 9\<rparr>,
      CancelledAtSubmit
        \<lparr>URL = ''https://a.test'', Status = 0, Duration = 0, Error = Some Canceled, When = 9\<rparr>,
      Released] = []
   \<and> wrun cfg1 env_up ''https://a.test'' (AtAcquire, sh_open)
     [Acquired, NoLimiter,
      Pinged \<lparr>URL = ''https://a.test'', Status = 200, Duration = 4000000, Error = None, When = 7\<rparr>,
      CancelledAtSubmit
        \<lparr>URL = ''https://a.test'', Status = 200, Duration = 4000000, Error = None, When = 7\<rparr>,
      Released]
     (Finished, sh_unlimited)
   \<and> submissions [Acquired, NoLimiter,
      Pinged \<lparr>URL = ''https://a.test'', Status = 200, Duration = 4000000, Error = None, When = 7\<rparr>,
      CancelledAtSubmit
        \<lparr>URL = ''https://a.test'', Status = 200, Duration = 4000000, Error = None, When = 7\<rparr>,
      Released] = []"
  using run_cancel_token run_cancel_submit run_drop_success by (simp add: submissions_simps)

text \<open>
  Claim C3, as amended.  A worker that runs to its end submits at most one result: the
  result of its \<^verbatim>\<open>pingWithRetries\<close> if it takes no cancellation case, and none if it
  takes the cancellation case of its token wait or of its submission.
\<close>

theorem task_submission:
  assumes "wrun c e url (AtAcquire, sh) as (Finished, sh')"
  shows "submissions as =
           (if took_cancel as then [] else [fst (pingWithRetries e url (retries c))])
       \<and> length (submissions as) \<le> 1"
  using run_task [OF assms] by (auto simp add: took_cancel_def submissions_simps split: if_splits)

text \<open>The theorem at a run that submits and at a run that is cancelled at the token wait.\<close>

theorem task_submission_witness:
  "submissions [Acquired, TokenTaken, Pinged (resB\<lparr>When := 5\<rparr>),
      Submitted (resB\<lparr>When := 5\<rparr>), Released] = [resB\<lparr>When := 5\<rparr>]
   \<and> \<not> took_cancel [Acquired, TokenTaken, Pinged (resB\<lparr>When := 5\<rparr>),
      Submitted (resB\<lparr>When := 5\<rparr>), Released]
   \<and> took_cancel [Acquired, CancelledAtToken, Released]
   \<and> submissions [Acquired, CancelledAtToken, Released] = []"
  using task_submission [OF run_ok] task_submission [OF run_cancel_token]
  by (simp add: took_cancel_def ping_down0 cfg1_def)

text \<open>
  Claim C6 fails on the code.  A worker that waits for a permit at a full gate has no
  step, also when \<^verbatim>\<open>ctx.Done()\<close> is closed: the send on \<^verbatim>\<open>sem\<close> does not race
  against the cancellation signal.
\<close>

theorem permit_wait_ignores_cancellation:
  assumes "concurrency c \<le> sem sh" and "ctx_done sh"
  shows "\<not> wstep c e url (AtAcquire, sh) a t"
  using assms by (auto elim: acquireE)

text \<open>
  The theorem at a gate of one permit that is taken, after cancellation; the token wait
  in the same state does take its cancellation case.
\<close>

theorem permit_wait_ignores_cancellation_witness:
  "concurrency cfg1 \<le> sem sh_full \<and> ctx_done sh_full
   \<and> \<not> wstep cfg1 env_cancelled ''https://a.test'' (AtAcquire, sh_full) Acquired
        (AtToken, sh_full\<lparr>sem := 2\<rparr>)
   \<and> wstep cfg1 env_cancelled ''https://a.test'' (AtToken, sh_full) CancelledAtToken
        (AtRelease, sh_full)"
proof -
  have h1: "concurrency cfg1 \<le> sem sh_full" and h2: "ctx_done sh_full"
    by (simp_all add: cfg1_def sh_full_def)
  have "tokenCh sh_full = Some 0" by (simp add: sh_full_def)
  then have "wstep cfg1 env_cancelled ''https://a.test'' (AtToken, sh_full) CancelledAtToken
        (AtRelease, sh_full)"
    using h2 by (rule wstep.token_cancel)
  with permit_wait_ignores_cancellation [OF h1 h2] h1 h2 show ?thesis by simp
qed

end
